theory Spec2Isabelle
  imports Complex_Main
begin

section \<open>Data model\<close>

text \<open>
  The notebook works on pandas data frames and numpy arrays. A row of the test set has a
  \<open>userID\<close> and a \<open>gameID\<close>; a row of the user data has a \<open>rating\<close> as well. Identifiers are
  the integer ids of boardgamegeek, ratings are real numbers (the floating-point rounding of
  numpy is not modelled). A cell of a data frame is \<open>None\<close> where pandas holds NaN.
\<close>

record query =
  userID :: nat
  gameID :: nat

record rating_rec = query +
  rating :: real

type_synonym matrix = "real list list"

text \<open>
  A pivoted data frame: the row labels (\<open>index\<close>), the column labels (\<open>columns\<close>) and the
  cells, one list per row.
\<close>

record frame =
  index :: "nat list"
  columns :: "nat list"
  vals :: "real option list list"

text \<open>The exceptions of Python, pandas and numpy that the notebook can raise.\<close>

datatype error =
    KeyError nat
  | ValueError
  | IndexError
  | LinAlgError
  | UnboundLocalError

section \<open>Building the training matrix\<close>

text \<open>
  \<open>traindata = userdata[userdata.userID.isin(set(testdata.userID))]\<close> and
  \<open>testdata_filt = testdata[testdata.userID.isin(set(userdata.userID))]\<close>.
\<close>

definition traindata_of :: "rating_rec list \<Rightarrow> query list \<Rightarrow> rating_rec list" where
  "traindata_of userdata testdata =
     filter (\<lambda>r. userID r \<in> set (map userID testdata)) userdata"

definition testdata_filt_of :: "rating_rec list \<Rightarrow> query list \<Rightarrow> query list" where
  "testdata_filt_of userdata testdata =
     filter (\<lambda>q. userID q \<in> set (map userID userdata)) testdata"

text \<open>
  \<open>DataFrame.pivot(index="userID", columns="gameID", values="rating")\<close>: the row and column
  labels are the distinct values of the two key columns of the frame that is pivoted, in
  ascending order; a cell without a record is NaN; two records with the same pair of keys
  make pandas raise ValueError.
\<close>

definition pivot :: "rating_rec list \<Rightarrow> error + frame" where
  "pivot df =
     (if \<not> distinct (map (\<lambda>r. (userID r, gameID r)) df) then Inl ValueError
      else
        let idx = sort (remdups (map userID df));
            cols = sort (remdups (map gameID df))
        in Inr \<lparr> index = idx, columns = cols,
                 vals = map (\<lambda>u. map (\<lambda>g. map_option rating
                              (find (\<lambda>r. userID r = u \<and> gameID r = g) df)) cols) idx \<rparr>)"

text \<open>\<open>Index.get_loc(label)\<close>: the position of a label, KeyError when it is absent.\<close>

fun get_loc :: "nat list \<Rightarrow> nat \<Rightarrow> error + nat" where
  "get_loc [] k = Inl (KeyError k)"
| "get_loc (x # xs) k =
     (if x = k then Inr 0
      else (case get_loc xs k of Inl e \<Rightarrow> Inl e | Inr i \<Rightarrow> Inr (Suc i)))"

section \<open>Estimating ratings from the nearest users\<close>

text \<open>
  \<open>train_p[gameID][user]\<close>: the column is looked up by its label, then the row by its label;
  both raise KeyError for a label that is absent.
\<close>

definition cell :: "frame \<Rightarrow> nat \<Rightarrow> nat \<Rightarrow> error + real option" where
  "cell P g user =
     (case get_loc (columns P) g of
        Inl e \<Rightarrow> Inl e
      | Inr j \<Rightarrow> (case get_loc (index P) user of
                   Inl e \<Rightarrow> Inl e
                 | Inr i \<Rightarrow> Inr (vals P ! i ! j)))"

text \<open>\<open>scipy.spatial.distance.cdist\<close> with the Euclidean metric, over the reals.\<close>

definition euclidean :: "real list \<Rightarrow> real list \<Rightarrow> real" where
  "euclidean x y = sqrt (sum_list (map2 (\<lambda>a b. (a - b)\<^sup>2) x y))"

definition cdist :: "matrix \<Rightarrow> matrix \<Rightarrow> matrix" where
  "cdist XA XB = map (\<lambda>x. map (euclidean x) XB) XA"

text \<open>
  Modelled from the spec: \<open>np.argsort\<close> is numpy's and is not among the sources. It returns
  the positions in ascending order of their values; among equal values the order of the
  positions is kept (a stable sort, "ties broken by original row order").
\<close>

definition argsort :: "real list \<Rightarrow> nat list" where
  "argsort ds = sort_key (\<lambda>j. ds ! j) [0..<length ds]"

text \<open>\<open>np.mean\<close> of a list of numbers; of the empty list it is NaN.\<close>

definition mean :: "real list \<Rightarrow> real option" where
  "mean xs = (if xs = [] then None else Some (sum_list xs / real (length xs)))"

text \<open>
  The inner loop of \<open>estimate_ratings\<close>: walk the users, append each rating that is not NaN,
  and break once the list has reached \<open>numneighbors2use\<close> entries. The length is tested
  after the append.
\<close>

fun collect :: "frame \<Rightarrow> nat \<Rightarrow> int \<Rightarrow> nat list \<Rightarrow> real list \<Rightarrow> error + real list" where
  "collect train_p g numneighbors2use [] ratings = Inr ratings"
| "collect train_p g numneighbors2use (user # users) ratings =
     (case cell train_p g user of
        Inl e \<Rightarrow> Inl e
      | Inr None \<Rightarrow> collect train_p g numneighbors2use users ratings
      | Inr (Some r) \<Rightarrow>
          (if int (length (ratings @ [r])) \<ge> numneighbors2use then Inr (ratings @ [r])
           else collect train_p g numneighbors2use users (ratings @ [r])))"

text \<open>
  \<open>ranking\<close> is \<open>ind\<close>: the positions of all rows of \<open>coords\<close>, sorted by the distance to the
  coordinate of the query user (\<open>dists\<close> has one row, which \<open>ind, = ...\<close> unpacks).
  \<open>neighbours\<close> is \<open>train_p.index[ind]\<close>, the users in the order in which the inner loop
  visits them. Taking a row of \<open>coords\<close> or a label of the index at a position that does not
  exist raises IndexError.
\<close>

definition ranking :: "matrix \<Rightarrow> nat \<Rightarrow> nat list" where
  "ranking coords userindex =
     (let targetcoord = coords ! userindex;
          dists = cdist [targetcoord] coords
      in hd (map argsort dists))"

definition neighbours :: "matrix \<Rightarrow> frame \<Rightarrow> nat \<Rightarrow> error + nat list" where
  "neighbours coords train_p userindex =
     (if userindex \<ge> length coords then Inl IndexError
      else
        let ind = ranking coords userindex
        in if \<exists>j \<in> set ind. j \<ge> length (index train_p) then Inl IndexError
           else Inr (map (\<lambda>j. index train_p ! j) ind))"

definition estimate_one :: "matrix \<Rightarrow> frame \<Rightarrow> int \<Rightarrow> query \<Rightarrow> error + real option" where
  "estimate_one coords train_p numneighbors2use rec =
     (case get_loc (index train_p) (userID rec) of
        Inl e \<Rightarrow> Inl e
      | Inr userindex \<Rightarrow>
          (case neighbours coords train_p userindex of
             Inl e \<Rightarrow> Inl e
           | Inr users \<Rightarrow>
               (case collect train_p (gameID rec) numneighbors2use users [] of
                  Inl e \<Rightarrow> Inl e
                | Inr ratings \<Rightarrow> Inr (mean ratings))))"

text \<open>
  The outer loop over the test rows (the list that the source calls \<open>rating\<close> is
  \<open>rating_list\<close> here). An exception raised for one row leaves the function; nothing
  catches it.
\<close>

fun estimate_loop ::
  "matrix \<Rightarrow> frame \<Rightarrow> int \<Rightarrow> query list \<Rightarrow> real option list \<Rightarrow> error + real option list" where
  "estimate_loop coords train_p numneighbors2use [] rating_list = Inr rating_list"
| "estimate_loop coords train_p numneighbors2use (rec # rest) rating_list =
     (case estimate_one coords train_p numneighbors2use rec of
        Inl e \<Rightarrow> Inl e
      | Inr r \<Rightarrow> estimate_loop coords train_p numneighbors2use rest (rating_list @ [r]))"

definition estimate_ratings ::
  "query list \<Rightarrow> matrix \<Rightarrow> frame \<Rightarrow> int \<Rightarrow> error + real option list" where
  "estimate_ratings testdata coords train_p numneighbors2use =
     estimate_loop coords train_p numneighbors2use testdata []"

text \<open>
  What the estimate should be made of: the ratings that are not NaN in column \<open>gameID\<close>, in
  the order of \<open>ranking\<close>. This definition is the reference that \<open>estimate_ratings\<close> is
  compared with; \<open>position\<close> is the place of the first occurrence of a label.
\<close>

definition position :: "nat list \<Rightarrow> nat \<Rightarrow> nat" where
  "position xs k = length (takeWhile (\<lambda>x. x \<noteq> k) xs)"

definition ratings_by_distance :: "matrix \<Rightarrow> frame \<Rightarrow> query \<Rightarrow> real list" where
  "ratings_by_distance coords train_p rec =
     List.map_filter (\<lambda>j. vals train_p ! j ! position (columns train_p) (gameID rec))
       (ranking coords (position (index train_p) (userID rec)))"

section \<open>Alternating least squares\<close>

text \<open>
  numpy's operations on arrays. A 2-D array is the list of its rows, all of the same length;
  where the number of columns of a result cannot be read off the rows (an operand without
  rows), it is passed as \<open>n\<close>.
\<close>

definition ncols :: "matrix \<Rightarrow> nat" where
  "ncols M = (if M = [] then 0 else length (hd M))"

definition col :: "matrix \<Rightarrow> nat \<Rightarrow> real list" where
  "col M j = map (\<lambda>row. row ! j) M"

definition dot :: "real list \<Rightarrow> real list \<Rightarrow> real" where
  "dot x y = sum_list (map2 (*) x y)"

definition transpose_m :: "nat \<Rightarrow> matrix \<Rightarrow> matrix" where
  "transpose_m n M = map (col M) [0..<n]"

definition mat_mul :: "nat \<Rightarrow> matrix \<Rightarrow> matrix \<Rightarrow> matrix" where
  "mat_mul n A B = map (\<lambda>row. map (\<lambda>j. dot row (col B j)) [0..<n]) A"

definition mat_vec :: "matrix \<Rightarrow> real list \<Rightarrow> real list" where
  "mat_vec A v = map (\<lambda>row. dot row v) A"

definition diag :: "real list \<Rightarrow> matrix" where
  "diag w = map (\<lambda>i. map (\<lambda>j. if i = j then w ! i else 0) [0..<length w]) [0..<length w]"

definition eye :: "nat \<Rightarrow> matrix" where
  "eye k = map (\<lambda>i. map (\<lambda>j. if i = j then 1 else 0) [0..<k]) [0..<k]"

definition scale :: "real \<Rightarrow> matrix \<Rightarrow> matrix" where
  "scale c M = map (map (\<lambda>x. c * x)) M"

definition mat_add :: "matrix \<Rightarrow> matrix \<Rightarrow> matrix" where
  "mat_add A B = map2 (map2 (+)) A B"

definition mat_sub :: "matrix \<Rightarrow> matrix \<Rightarrow> matrix" where
  "mat_sub A B = map2 (map2 (-)) A B"

definition mat_times :: "matrix \<Rightarrow> matrix \<Rightarrow> matrix" where
  "mat_times A B = map2 (map2 (*)) A B"

definition set_col :: "matrix \<Rightarrow> nat \<Rightarrow> real list \<Rightarrow> matrix" where
  "set_col M i y = map2 (\<lambda>row v. row[i := v]) M y"

text \<open>\<open>W = Q > 0.5\<close>, as floats: 1 where the entry exceeds 0.5 and 0 elsewhere.\<close>

definition weights :: "matrix \<Rightarrow> matrix" where
  "weights Q = map (map (\<lambda>q. if q > 1 / 2 then 1 else 0)) Q"

definition get_error :: "matrix \<Rightarrow> matrix \<Rightarrow> matrix \<Rightarrow> matrix \<Rightarrow> real" where
  "get_error Q X Y W =
     sum_list (concat (map (map (\<lambda>x. x\<^sup>2)) (mat_times W (mat_sub Q (mat_mul (ncols Q) X Y)))))"

text \<open>
  The two linear systems of the weighted mode, as the source writes them: for the row of a
  user, \<open>np.dot(Y, np.dot(np.diag(Wu), Y.T)) + lambda_ * np.eye(n_factors)\<close> and
  \<open>np.dot(Y, np.dot(np.diag(Wu), Q[u].T))\<close>; for the column of an item,
  \<open>np.dot(X.T, np.dot(np.diag(Wi), X)) + lambda_ * np.eye(n_factors)\<close> and
  \<open>np.dot(X.T, np.dot(np.diag(Wi), Q[:, i]))\<close>.
\<close>

definition user_A :: "real \<Rightarrow> nat \<Rightarrow> nat \<Rightarrow> matrix \<Rightarrow> real list \<Rightarrow> matrix" where
  "user_A lam n_factors n Y Wu =
     mat_add (mat_mul n_factors Y (mat_mul n_factors (diag Wu) (transpose_m n Y)))
             (scale lam (eye n_factors))"

definition user_b :: "matrix \<Rightarrow> real list \<Rightarrow> real list \<Rightarrow> real list" where
  "user_b Y Wu Qu = mat_vec Y (mat_vec (diag Wu) Qu)"

definition item_A :: "real \<Rightarrow> nat \<Rightarrow> matrix \<Rightarrow> real list \<Rightarrow> matrix" where
  "item_A lam n_factors X Wi =
     mat_add (mat_mul n_factors (transpose_m n_factors X) (mat_mul n_factors (diag Wi) X))
             (scale lam (eye n_factors))"

definition item_b :: "nat \<Rightarrow> matrix \<Rightarrow> real list \<Rightarrow> real list \<Rightarrow> real list" where
  "item_b n_factors X Wi Qi = mat_vec (transpose_m n_factors X) (mat_vec (diag Wi) Qi)"

text \<open>
  \<open>np.linalg.solve\<close> is numpy's. It is a parameter of the model: \<open>solve A b\<close> for a vector
  \<open>b\<close>, \<open>solve_m A B\<close> for a matrix \<open>B\<close>, \<open>None\<close> where numpy raises LinAlgError.

  The loop \<open>for u, Wu in enumerate(W): X[u] = ...\<close> writes the rows of \<open>X\<close> in place; the loop
  \<open>for i, Wi in enumerate(W.T): Y[:,i] = ...\<close> writes the columns of \<open>Y\<close> in place.
\<close>

type_synonym solver = "matrix \<Rightarrow> real list \<Rightarrow> real list option"
type_synonym solver_m = "matrix \<Rightarrow> matrix \<Rightarrow> matrix option"

fun update_X ::
  "solver \<Rightarrow> real \<Rightarrow> nat \<Rightarrow> nat \<Rightarrow> matrix \<Rightarrow> matrix \<Rightarrow> matrix \<Rightarrow> nat list \<Rightarrow> matrix
   \<Rightarrow> error + matrix" where
  "update_X solve lam n_factors n Q W Y [] X = Inr X"
| "update_X solve lam n_factors n Q W Y (u # us) X =
     (case solve (user_A lam n_factors n Y (W ! u)) (user_b Y (W ! u) (Q ! u)) of
        None \<Rightarrow> Inl LinAlgError
      | Some x \<Rightarrow> update_X solve lam n_factors n Q W Y us (X[u := x]))"

fun update_Y ::
  "solver \<Rightarrow> real \<Rightarrow> nat \<Rightarrow> matrix \<Rightarrow> matrix \<Rightarrow> matrix \<Rightarrow> nat list \<Rightarrow> matrix
   \<Rightarrow> error + matrix" where
  "update_Y solve lam n_factors Q W X [] Y = Inr Y"
| "update_Y solve lam n_factors Q W X (i # is) Y =
     (case solve (item_A lam n_factors X (col W i)) (item_b n_factors X (col W i) (col Q i)) of
        None \<Rightarrow> Inl LinAlgError
      | Some y \<Rightarrow> update_Y solve lam n_factors Q W X is (set_col Y i y))"

text \<open>One pass of the weighted loop body: all rows of \<open>X\<close>, then all columns of \<open>Y\<close>.\<close>

definition weighted_step ::
  "solver \<Rightarrow> real \<Rightarrow> nat \<Rightarrow> matrix \<Rightarrow> matrix \<Rightarrow> matrix \<times> matrix \<Rightarrow> error + matrix \<times> matrix" where
  "weighted_step solve lam n_factors Q W XY =
     (case update_X solve lam n_factors (ncols Q) Q W (snd XY) [0..<length W] (fst XY) of
        Inl e \<Rightarrow> Inl e
      | Inr X \<Rightarrow>
          (case update_Y solve lam n_factors Q W X [0..<ncols Q] (snd XY) of
             Inl e \<Rightarrow> Inl e
           | Inr Y \<Rightarrow> Inr (X, Y)))"

text \<open>
  One pass of the unweighted loop body:
  \<open>X = np.linalg.solve(np.dot(Y, Y.T) + lambda_ * np.eye(n_factors), np.dot(Y, Q.T)).T\<close>, then
  \<open>Y = np.linalg.solve(np.dot(X.T, X) + lambda_ * np.eye(n_factors), np.dot(X.T, Q))\<close>.
\<close>

definition unweighted_step ::
  "solver_m \<Rightarrow> real \<Rightarrow> nat \<Rightarrow> matrix \<Rightarrow> matrix \<times> matrix \<Rightarrow> error + matrix \<times> matrix" where
  "unweighted_step solve_m lam n_factors Q XY =
     (let m = length Q; n = ncols Q; Y = snd XY in
      case solve_m (mat_add (mat_mul n_factors Y (transpose_m n Y)) (scale lam (eye n_factors)))
                   (mat_mul m Y (transpose_m n Q)) of
        None \<Rightarrow> Inl LinAlgError
      | Some Z \<Rightarrow>
          (let X = transpose_m m Z in
           case solve_m (mat_add (mat_mul n_factors (transpose_m n_factors X) X)
                                 (scale lam (eye n_factors)))
                        (mat_mul n (transpose_m n_factors X) Q) of
             None \<Rightarrow> Inl LinAlgError
           | Some Y' \<Rightarrow> Inr (X, Y')))"

text \<open>
  \<open>for ii in range(n_iterations)\<close>: one step, then \<open>errors.append(get_error(Q, X, Y, W))\<close>.
  The state is \<open>(X, Y, errors)\<close>. Nothing in the body leaves the loop early, except an
  exception of the solver.
\<close>

fun als_loop ::
  "(matrix \<times> matrix \<Rightarrow> error + matrix \<times> matrix) \<Rightarrow> matrix \<Rightarrow> matrix \<Rightarrow> nat list
   \<Rightarrow> matrix \<times> matrix \<times> real list \<Rightarrow> error + matrix \<times> matrix \<times> real list" where
  "als_loop step Q W [] s = Inr s"
| "als_loop step Q W (ii # iis) s =
     (case step (fst s, fst (snd s)) of
        Inl e \<Rightarrow> Inl e
      | Inr XY \<Rightarrow>
          als_loop step Q W iis
            (fst XY, snd XY, snd (snd s) @ [get_error Q (fst XY) (snd XY) W]))"

text \<open>
  \<open>do_ALS\<close>. The two draws of \<open>np.random.rand\<close> are the parameters \<open>rand_X\<close> and \<open>rand_Y\<close>
  (entry by row and column). Printing is not modelled, but the last print of the weighted
  branch reads the loop variable \<open>ii\<close> after the loop, which Python refuses with
  UnboundLocalError when the loop body never ran.
\<close>

definition do_ALS ::
  "solver \<Rightarrow> solver_m \<Rightarrow> (nat \<Rightarrow> nat \<Rightarrow> real) \<Rightarrow> (nat \<Rightarrow> nat \<Rightarrow> real)
   \<Rightarrow> matrix \<Rightarrow> int \<Rightarrow> real \<Rightarrow> nat \<Rightarrow> bool \<Rightarrow> bool
   \<Rightarrow> error + matrix \<times> matrix \<times> matrix \<times> real list" where
  "do_ALS solve solve_m rand_X rand_Y Q n_iterations lam n_factors weighted verbose =
     (let W = weights Q;
          m = length Q;
          n = ncols Q;
          X = map (\<lambda>i. map (\<lambda>j. 5 * rand_X i j) [0..<n_factors]) [0..<m];
          Y = map (\<lambda>i. map (\<lambda>j. 5 * rand_Y i j) [0..<n]) [0..<n_factors]
      in if \<not> weighted then
           (case als_loop (unweighted_step solve_m lam n_factors Q) Q W
                   [0..<nat n_iterations] (X, Y, []) of
              Inl e \<Rightarrow> Inl e
            | Inr s \<Rightarrow> Inr (mat_mul n (fst s) (fst (snd s)), fst s, fst (snd s), snd (snd s)))
         else
           (case als_loop (weighted_step solve lam n_factors Q W) Q W
                   [0..<nat n_iterations] (X, Y, []) of
              Inl e \<Rightarrow> Inl e
            | Inr s \<Rightarrow>
                if verbose \<and> n_iterations \<le> 0 then Inl UnboundLocalError
                else Inr (mat_mul n (fst s) (fst (snd s)), fst s, fst (snd s), snd (snd s))))"

section \<open>The pipeline\<close>


definition DataFrame :: "matrix \<Rightarrow> nat list \<Rightarrow> nat list \<Rightarrow> frame" where
  "DataFrame M idx cols = \<lparr> index = idx, columns = cols, vals = map (map Some) M \<rparr>"

definition clip_upper :: "real \<Rightarrow> frame \<Rightarrow> frame" where
  "clip_upper t P = P \<lparr> vals := map (map (map_option (\<lambda>x. min x t))) (vals P) \<rparr>"

definition clip_lower :: "real \<Rightarrow> frame \<Rightarrow> frame" where
  "clip_lower t P = P \<lparr> vals := map (map (map_option (\<lambda>x. max x t))) (vals P) \<rparr>"

definition train_p_filled_of :: "frame \<Rightarrow> matrix \<Rightarrow> frame" where
  "train_p_filled_of train_p Q_hat =
     clip_lower 1 (clip_upper 10 (DataFrame Q_hat (index train_p) (columns train_p)))"



section \<open>Example data\<close>

text \<open>
  A small training matrix with three users and three games (nobody has rated game 9), and
  one coordinate per user; and a small dataset with its test set, whose pivot is
  \<open>ex_train_p\<close>.
\<close>

definition ex_frame :: frame where
  "ex_frame = \<lparr> index = [2, 3, 4], columns = [5, 7, 9],
       vals = [[Some 6, None, None], [None, Some 8, None], [Some 4, Some 2, None]] \<rparr>"

definition ex_coords :: matrix where
  "ex_coords = [[0], [1], [3]]"




text \<open>
  An exact solver for systems of one or two unknowns (Cramer's rule), which stands for
  \<open>np.linalg.solve\<close> where the model is run on small inputs. A singular system has no
  result, as numpy raises LinAlgError there; larger systems are not handled. For a matrix on
  the right-hand side the columns are solved one by one.
\<close>

definition solve_cramer :: solver where
  "solve_cramer A b =
     (case (A, b) of
        ([[a11]], [b1]) \<Rightarrow> (if a11 = 0 then None else Some [b1 / a11])
      | ([[a11, a12], [a21, a22]], [b1, b2]) \<Rightarrow>
          (let det = a11 * a22 - a12 * a21
           in if det = 0 then None
              else Some [(b1 * a22 - a12 * b2) / det, (a11 * b2 - b1 * a21) / det])
      | _ \<Rightarrow> None)"

definition solve_m_cramer :: solver_m where
  "solve_m_cramer A B =
     (let sols = map (\<lambda>j. solve_cramer A (col B j)) [0..<ncols B]
      in if None \<in> set sols then None
         else Some (transpose_m (length A) (map the sols)))"

section \<open>Lookups\<close>

lemma get_loc_absent: "k \<notin> set xs \<Longrightarrow> get_loc xs k = Inl (KeyError k)"
  by (induction xs) auto

lemma get_loc_present:
  "k \<in> set xs \<Longrightarrow> \<exists>i. get_loc xs k = Inr i \<and> i < length xs \<and> xs ! i = k"
proof (induction xs)
  case Nil
  then show ?case by simp
next
  case (Cons x xs)
  show ?case
  proof (cases "x = k")
    case True
    then show ?thesis by simp
  next
    case False
    with Cons.prems have "k \<in> set xs" by simp
    from Cons.IH [OF this] obtain i where "get_loc xs k = Inr i" "i < length xs" "xs ! i = k"
      by blast
    with False show ?thesis by simp
  qed
qed

lemma pivot_index:
  "pivot df = Inr P \<Longrightarrow> index P = sort (remdups (map userID df))"
  by (auto simp: pivot_def Let_def split: if_splits)

lemma pivot_columns:
  "pivot df = Inr P \<Longrightarrow> columns P = sort (remdups (map gameID df))"
  by (auto simp: pivot_def Let_def split: if_splits)

section \<open>The columns of the training matrix\<close>

text \<open>
  C2 (as amended). The pivot is taken of the filtered training records, so the columns of
  \<open>train_p\<close> are the distinct gameIDs of the training subset, in ascending order. They are
  among the gameIDs of the full dataset, and nothing adds the others.
\<close>

theorem train_p_columns:
  assumes "pivot (traindata_of userdata testdata) = Inr train_p"
  shows "set (columns train_p) = gameID ` set (traindata_of userdata testdata)
         \<and> sorted (columns train_p) \<and> distinct (columns train_p)
         \<and> set (columns train_p) \<subseteq> gameID ` set userdata"
proof -
  have c: "columns train_p = sort (remdups (map gameID (traindata_of userdata testdata)))"
    using assms by (rule pivot_columns)
  have "set (traindata_of userdata testdata) \<subseteq> set userdata"
    by (auto simp: traindata_of_def)
  then show ?thesis
    unfolding c by auto
qed

theorem train_p_columns_witness:
  "pivot (traindata_of
       [\<lparr>userID = 1, gameID = 5, rating = 6\<rparr>, \<lparr>userID = 2, gameID = 7, rating = 8\<rparr>]
       [\<lparr>userID = 1, gameID = 7\<rparr>])
     = Inr \<lparr>index = [1], columns = [5], vals = [[Some 6]]\<rparr>
   \<and> set [5::nat] = gameID ` set (traindata_of
       [\<lparr>userID = 1, gameID = 5, rating = 6\<rparr>, \<lparr>userID = 2, gameID = 7, rating = 8\<rparr>]
       [\<lparr>userID = 1, gameID = 7\<rparr>])"
proof -
  have p: "pivot (traindata_of
       [\<lparr>userID = 1, gameID = 5, rating = 6\<rparr>, \<lparr>userID = 2, gameID = 7, rating = 8\<rparr>]
       [\<lparr>userID = 1, gameID = 7\<rparr>])
     = Inr \<lparr>index = [1], columns = [5], vals = [[Some 6]]\<rparr>"
    by (simp add: pivot_def traindata_of_def)
  from train_p_columns [OF p] show ?thesis
    using p by simp
qed

text \<open>
  The claim as the specification states it fails: game 7 is rated in the full dataset, by a
  user who is not in the test set, and \<open>train_p\<close> has no column for it.
\<close>

theorem train_p_columns_counterexample:
  "\<exists>train_p. pivot (traindata_of
       [\<lparr>userID = 1, gameID = 5, rating = 6\<rparr>, \<lparr>userID = 2, gameID = 7, rating = 8\<rparr>]
       [\<lparr>userID = 1, gameID = 7\<rparr>]) = Inr train_p
     \<and> set (columns train_p) \<noteq>
       gameID ` set [\<lparr>userID = 1, gameID = 5, rating = 6\<rparr>, \<lparr>userID = 2, gameID = 7, rating = 8\<rparr>]"
  by (simp add: pivot_def traindata_of_def)

section \<open>Alignment of the queries with the training rows\<close>

text \<open>
  C10. The training rows are the users of the full dataset that occur in the test set, the
  queries are the test rows whose user occurs in the full dataset; so the row index of
  \<open>train_p\<close> holds the user of every query of \<open>testdata_filt\<close>, and \<open>get_loc\<close> finds it. The
  completed frame that is handed to \<open>estimate_ratings\<close> has the same row index.
\<close>

theorem filtered_queries_aligned:
  assumes "pivot (traindata_of userdata testdata) = Inr train_p"
  shows "set (index train_p) = userID ` set userdata \<inter> userID ` set testdata
         \<and> index (train_p_filled_of train_p Q_hat) = index train_p
         \<and> (\<forall>q \<in> set (testdata_filt_of userdata testdata).
               \<exists>i. get_loc (index train_p) (userID q) = Inr i
                 \<and> i < length (index train_p) \<and> index train_p ! i = userID q)"
proof -
  have i: "index train_p = sort (remdups (map userID (traindata_of userdata testdata)))"
    using assms by (rule pivot_index)
  have s: "set (index train_p) = userID ` set userdata \<inter> userID ` set testdata"
    unfolding i by (auto simp: traindata_of_def)
  have "\<exists>i. get_loc (index train_p) (userID q) = Inr i
          \<and> i < length (index train_p) \<and> index train_p ! i = userID q"
    if "q \<in> set (testdata_filt_of userdata testdata)" for q
  proof -
    from that have "userID q \<in> userID ` set userdata \<inter> userID ` set testdata"
      by (auto simp: testdata_filt_of_def)
    with s have "userID q \<in> set (index train_p)" by simp
    then show ?thesis by (rule get_loc_present)
  qed
  moreover have "index (train_p_filled_of train_p Q_hat) = index train_p"
    by (simp add: train_p_filled_of_def clip_lower_def clip_upper_def DataFrame_def)
  ultimately show ?thesis using s by blast
qed

theorem filtered_queries_aligned_witness:
  "pivot (traindata_of
       [\<lparr>userID = 1, gameID = 5, rating = 6\<rparr>, \<lparr>userID = 2, gameID = 7, rating = 8\<rparr>]
       [\<lparr>userID = 2, gameID = 5\<rparr>, \<lparr>userID = 3, gameID = 7\<rparr>])
     = Inr \<lparr>index = [2], columns = [7], vals = [[Some 8]]\<rparr>
   \<and> testdata_filt_of
       [\<lparr>userID = 1, gameID = 5, rating = 6\<rparr>, \<lparr>userID = 2, gameID = 7, rating = 8\<rparr>]
       [\<lparr>userID = 2, gameID = 5\<rparr>, \<lparr>userID = 3, gameID = 7\<rparr>] = [\<lparr>userID = 2, gameID = 5\<rparr>]
   \<and> get_loc [2] (userID \<lparr>userID = 2, gameID = 5\<rparr>) = Inr 0"
proof -
  have p: "pivot (traindata_of
       [\<lparr>userID = 1, gameID = 5, rating = 6\<rparr>, \<lparr>userID = 2, gameID = 7, rating = 8\<rparr>]
       [\<lparr>userID = 2, gameID = 5\<rparr>, \<lparr>userID = 3, gameID = 7\<rparr>])
     = Inr \<lparr>index = [2], columns = [7], vals = [[Some 8]]\<rparr>"
    by (simp add: pivot_def traindata_of_def)
  have f: "testdata_filt_of
       [\<lparr>userID = 1, gameID = 5, rating = 6\<rparr>, \<lparr>userID = 2, gameID = 7, rating = 8\<rparr>]
       [\<lparr>userID = 2, gameID = 5\<rparr>, \<lparr>userID = 3, gameID = 7\<rparr>] = [\<lparr>userID = 2, gameID = 5\<rparr>]"
    by (simp add: testdata_filt_of_def)
  from filtered_queries_aligned [OF p] show ?thesis
    using p f by simp
qed

section \<open>The estimate of one query\<close>

lemma get_loc_position: "k \<in> set xs \<Longrightarrow> get_loc xs k = Inr (position xs k)"
  by (induction xs) (auto simp: position_def)

lemma position_nth: "distinct xs \<Longrightarrow> j < length xs \<Longrightarrow> position xs (xs ! j) = j"
  unfolding position_def
proof (induction xs arbitrary: j)
  case Nil
  then show ?case by simp
next
  case (Cons x xs)
  then show ?case by (cases j) auto
qed

lemma position_less: "k \<in> set xs \<Longrightarrow> position xs k < length xs"
  unfolding position_def by (induction xs) auto

lemma insort_key_agree:
  "f x = g x \<Longrightarrow> \<forall>y \<in> set ys. f y = g y \<Longrightarrow> insort_key f x ys = insort_key g x ys"
  by (induction ys) auto

lemma sort_key_agree:
  "\<forall>x \<in> set xs. f x = g x \<Longrightarrow> sort_key f xs = sort_key g xs"
proof (induction xs)
  case Nil
  then show ?case by simp
next
  case (Cons x xs)
  then have "sort_key f xs = sort_key g xs" by simp
  moreover have "insort_key f x (sort_key g xs) = insort_key g x (sort_key g xs)"
    using Cons.prems by (intro insort_key_agree) auto
  ultimately show ?case by simp
qed

lemma get_loc_error: "get_loc xs k = Inl e \<Longrightarrow> e = KeyError k"
  by (induction xs) (auto split: if_splits sum.splits)

lemma cell_error: "cell P g user = Inl e \<Longrightarrow> \<exists>k. e = KeyError k"
  by (auto simp: cell_def split: sum.splits dest: get_loc_error)

lemma collect_error: "collect P g n users acc = Inl e \<Longrightarrow> \<exists>k. e = KeyError k"
  by (induction users arbitrary: acc) (auto split: sum.splits option.splits if_splits dest: cell_error)

lemma ranking_eq:
  "ranking coords u = sort_key (\<lambda>j. euclidean (coords ! u) (coords ! j)) [0..<length coords]"
proof -
  have "sort_key (\<lambda>j. map (euclidean (coords ! u)) coords ! j) [0..<length coords]
      = sort_key (\<lambda>j. euclidean (coords ! u) (coords ! j)) [0..<length coords]"
    by (rule sort_key_agree) simp
  then show ?thesis by (simp add: ranking_def cdist_def argsort_def)
qed

lemma set_ranking: "set (ranking coords u) = {0..<length coords}"
  by (simp add: ranking_eq)

lemma neighbours_ok:
  "u < length coords \<Longrightarrow> length coords = length (index P) \<Longrightarrow>
   neighbours coords P u = Inr (map (\<lambda>j. index P ! j) (ranking coords u))"
  by (simp add: neighbours_def set_ranking)

lemma collect_eq:
  assumes "\<forall>user \<in> set users. cell P g user = Inr (f user)"
      and "int (length acc) < max 1 n"
  shows "collect P g n users acc = Inr (take (nat (max 1 n)) (acc @ List.map_filter f users))"
  using assms
proof (induction users arbitrary: acc)
  case Nil
  then show ?case by (simp add: List.map_filter_simps)
next
  case (Cons user users)
  show ?case
  proof (cases "f user")
    case None
    with Cons show ?thesis by (simp add: List.map_filter_simps)
  next
    case (Some r)
    show ?thesis
    proof (cases "int (length (acc @ [r])) \<ge> n")
      case True
      with Cons.prems have "nat (max 1 n) = length (acc @ [r])" by auto
      with Cons.prems Some True show ?thesis by (simp add: List.map_filter_simps)
    next
      case False
      then have "int (length (acc @ [r])) < max 1 n" by simp
      from Cons.IH [OF _ this] Cons.prems Some False show ?thesis
        by (simp add: List.map_filter_simps)
    qed
  qed
qed


lemma get_loc_Inr: "get_loc xs k = Inr i \<Longrightarrow> i < length xs \<and> xs ! i = k"
  by (induction xs arbitrary: i) (auto split: if_splits sum.splits)

lemma map_filter_map: "List.map_filter f (map g xs) = List.map_filter (\<lambda>x. f (g x)) xs"
  by (induction xs) (auto simp: List.map_filter_simps split: option.splits)

lemma map_filter_agree:
  "\<forall>x \<in> set xs. f x = g x \<Longrightarrow> List.map_filter f xs = List.map_filter g xs"
  by (induction xs) (auto simp: List.map_filter_simps split: option.splits)

lemma estimate_one_mean:
  assumes u: "userID rec \<in> set (index P)" and g: "gameID rec \<in> set (columns P)"
      and len: "length coords = length (index P)" and dist: "distinct (index P)"
  shows "estimate_one coords P n rec
         = Inr (mean (take (nat (max 1 n)) (ratings_by_distance coords P rec)))"
proof -
  let ?u = "position (index P) (userID rec)"
  let ?c = "position (columns P) (gameID rec)"
  let ?users = "map (\<lambda>j. index P ! j) (ranking coords ?u)"
  let ?f = "\<lambda>user. vals P ! position (index P) user ! ?c"
  have loc: "get_loc (index P) (userID rec) = Inr ?u"
    using u by (rule get_loc_position)
  have "?u < length coords"
    using u len by (simp add: position_less)
  then have nb: "neighbours coords P ?u = Inr ?users"
    using len by (rule neighbours_ok)
  have cells: "\<forall>user \<in> set ?users. cell P (gameID rec) user = Inr (?f user)"
    using g len by (auto simp: cell_def set_ranking get_loc_position)
  have "collect P (gameID rec) n ?users []
        = Inr (take (nat (max 1 n)) ([] @ List.map_filter ?f ?users))"
    using cells by (rule collect_eq) simp
  moreover have "List.map_filter ?f ?users = ratings_by_distance coords P rec"
    unfolding ratings_by_distance_def map_filter_map
    by (rule map_filter_agree) (simp add: set_ranking len position_nth [OF dist])
  ultimately show ?thesis
    by (simp add: estimate_one_def loc nb)
qed

lemma estimate_loop_mean:
  assumes "\<forall>rec \<in> set testdata. userID rec \<in> set (index P) \<and> gameID rec \<in> set (columns P)"
      and "length coords = length (index P)" and "distinct (index P)"
  shows "estimate_loop coords P n testdata acc
         = Inr (acc @ map (\<lambda>rec. mean (take (nat (max 1 n)) (ratings_by_distance coords P rec)))
                          testdata)"
  using assms
  by (induction testdata arbitrary: acc) (simp_all add: estimate_one_mean)

lemma mean_None: "mean xs = None \<longleftrightarrow> xs = []"
  by (simp add: mean_def)

text \<open>
  C7 (as amended). When every query names a user of the row index and a game of the columns,
  \<open>estimate_ratings\<close> returns one estimate per query and raises nothing: the estimate is the
  mean of the first \<open>max 1 numneighbors2use\<close> ratings that are not NaN, taken in the order of
  \<open>ranking\<close> (ascending distance), and it is NaN exactly when no user has such a rating.
\<close>

theorem estimate_ratings_mean:
  assumes "\<forall>rec \<in> set testdata. userID rec \<in> set (index P) \<and> gameID rec \<in> set (columns P)"
      and "length coords = length (index P)" and "distinct (index P)"
  shows "estimate_ratings testdata coords P n
         = Inr (map (\<lambda>rec. mean (take (nat (max 1 n)) (ratings_by_distance coords P rec)))
                    testdata)
       \<and> (\<forall>rec. mean (take (nat (max 1 n)) (ratings_by_distance coords P rec)) = None
                 \<longleftrightarrow> ratings_by_distance coords P rec = [])
       \<and> (\<forall>u. sorted (map (\<lambda>j. euclidean (coords ! u) (coords ! j)) (ranking coords u)))"
proof -
  have "0 < nat (max 1 n)" by simp
  then have "\<forall>xs :: real list. take (nat (max 1 n)) xs = [] \<longleftrightarrow> xs = []"
    by (metis less_numeral_extra(3) take_eq_Nil)
  moreover have "sorted (map (\<lambda>j. euclidean (coords ! u) (coords ! j)) (ranking coords u))" for u
    unfolding ranking_eq by (rule sorted_sort_key)
  ultimately show ?thesis
    using estimate_loop_mean [OF assms, of n "[]"]
    by (simp add: estimate_ratings_def mean_None)
qed

lemma estimate_one_error:
  assumes "length coords = length (index P)" and "estimate_one coords P n rec = Inl e"
  shows "\<exists>k. e = KeyError k"
proof (cases "get_loc (index P) (userID rec)")
  case (Inl e')
  with assms(2) have "e = e'" by (simp add: estimate_one_def)
  with Inl show ?thesis by (auto dest: get_loc_error)
next
  case (Inr u)
  then have "u < length coords" using assms(1) by (auto dest: get_loc_Inr)
  then have "neighbours coords P u = Inr (map (\<lambda>j. index P ! j) (ranking coords u))"
    using assms(1) by (rule neighbours_ok)
  with Inr assms(2) show ?thesis
    by (auto simp: estimate_one_def split: sum.splits dest: collect_error)
qed

lemma estimate_loop_aborts:
  assumes "\<exists>rec \<in> set testdata. userID rec \<notin> set (index P)"
      and "length coords = length (index P)"
  shows "\<exists>k. estimate_loop coords P n testdata acc = Inl (KeyError k)"
  using assms(1)
proof (induction testdata arbitrary: acc)
  case Nil
  then show ?case by simp
next
  case (Cons rec rest)
  show ?case
  proof (cases "estimate_one coords P n rec")
    case (Inl e)
    with assms(2) obtain k where "e = KeyError k" by (auto dest: estimate_one_error)
    with Inl show ?thesis by simp
  next
    case (Inr r)
    have "userID rec \<in> set (index P)"
    proof (rule ccontr)
      assume "userID rec \<notin> set (index P)"
      then have "estimate_one coords P n rec = Inl (KeyError (userID rec))"
        by (simp add: estimate_one_def get_loc_absent)
      with Inr show False by simp
    qed
    with Cons.prems have "\<exists>rec \<in> set rest. userID rec \<notin> set (index P)" by auto
    from Cons.IH [OF this] Inr show ?thesis by simp
  qed
qed

text \<open>
  C6 (as amended). A query whose user is not in the row index makes \<open>get_loc\<close> raise
  KeyError, and nothing catches it: the call of \<open>estimate_ratings\<close> ends with a KeyError and
  returns no estimate at all, neither for the queries before nor for those after.
\<close>

theorem unknown_user_aborts_batch:
  assumes "\<exists>rec \<in> set testdata. userID rec \<notin> set (index P)"
      and "length coords = length (index P)"
  shows "\<exists>k. estimate_ratings testdata coords P n = Inl (KeyError k)"
  unfolding estimate_ratings_def using assms by (rule estimate_loop_aborts)


section \<open>The order of the candidates\<close>

lemma euclidean_self: "euclidean x x = 0"
proof -
  have "sum_list (map2 (\<lambda>a b. (a - b)\<^sup>2) x x) = (0::real)"
    by (induction x) auto
  then show ?thesis by (simp add: euclidean_def)
qed

lemma euclidean_nonneg: "0 \<le> euclidean x y"
  unfolding euclidean_def
  by (rule real_sqrt_ge_zero, rule sum_list_nonneg) auto

lemma sorted_ranking:
  "sorted (map (\<lambda>j. euclidean (coords ! u) (coords ! j)) (ranking coords u))"
  unfolding ranking_eq by (rule sorted_sort_key)

lemma ranking_stable:
  "filter (\<lambda>j. euclidean (coords ! u) (coords ! j) = k) (ranking coords u)
   = filter (\<lambda>j. euclidean (coords ! u) (coords ! j) = k) [0..<length coords]"
  unfolding ranking_eq by (rule sort_key_stable)

lemma ranked_ahead:
  assumes u: "u < length coords"
      and j: "j \<in> set (takeWhile (\<lambda>j. j \<noteq> u) (ranking coords u))"
  shows "euclidean (coords ! u) (coords ! j) = 0 \<and> j < u"
proof -
  let ?d = "\<lambda>j. euclidean (coords ! u) (coords ! j)"
  let ?r = "ranking coords u"
  define tw where "tw = takeWhile (\<lambda>j. j \<noteq> u) ?r"
  define dw where "dw = dropWhile (\<lambda>j. j \<noteq> u) ?r"
  have split: "?r = tw @ dw" by (simp add: tw_def dw_def)
  have jtw: "j \<in> set tw" using j by (simp add: tw_def)
  have "u \<in> set ?r" using u by (simp add: set_ranking)
  moreover have "u \<notin> set tw" by (auto simp: tw_def dest: set_takeWhileD)
  ultimately have udw: "u \<in> set dw"
    unfolding split by simp
  have ju: "j \<noteq> u" using j by (auto dest: set_takeWhileD)
  have "sorted (map ?d (tw @ dw))"
    using sorted_ranking [of coords u] unfolding split .
  then have "?d j \<le> ?d u"
    using jtw udw by (auto simp: sorted_append)
  then have d0: "?d j = 0"
    using euclidean_nonneg [of "coords ! u" "coords ! j"] by (simp add: euclidean_self)
  have "sorted (filter (\<lambda>j. ?d j = 0) [0..<length coords])"
    by (rule sorted_wrt_filter) simp
  then have "sorted (filter (\<lambda>j. ?d j = 0) (tw @ dw))"
    using ranking_stable [of coords u 0] unfolding split by simp
  then have "j \<le> u"
    using jtw udw d0 by (auto simp: sorted_append euclidean_self)
  with ju d0 show ?thesis by simp
qed

text \<open>
  C8 (as amended). Every row is a candidate exactly once, the query user included; the
  candidates are in ascending order of their Euclidean distance to the query user, and
  candidates at the same distance keep the order of the rows. The query user is at
  distance 0; whoever is ranked ahead of it is at distance 0 too and is an earlier row. So
  the query user is first when no earlier row is at distance 0 from it.
\<close>

theorem ranking_order:
  assumes "userindex < length coords"
  shows "set (ranking coords userindex) = {0..<length coords}
       \<and> distinct (ranking coords userindex)
       \<and> sorted (map (\<lambda>j. euclidean (coords ! userindex) (coords ! j)) (ranking coords userindex))
       \<and> (\<forall>k. filter (\<lambda>j. euclidean (coords ! userindex) (coords ! j) = k)
                  (ranking coords userindex)
             = filter (\<lambda>j. euclidean (coords ! userindex) (coords ! j) = k) [0..<length coords])
       \<and> euclidean (coords ! userindex) (coords ! userindex) = 0
       \<and> (\<forall>j \<in> set (takeWhile (\<lambda>j. j \<noteq> userindex) (ranking coords userindex)).
             euclidean (coords ! userindex) (coords ! j) = 0 \<and> j < userindex)
       \<and> ((\<forall>j < userindex. euclidean (coords ! userindex) (coords ! j) \<noteq> 0)
            \<longrightarrow> hd (ranking coords userindex) = userindex)"
proof -
  let ?r = "ranking coords userindex"
  have first: "hd ?r = userindex"
    if none: "\<forall>j < userindex. euclidean (coords ! userindex) (coords ! j) \<noteq> 0"
  proof -
    have "takeWhile (\<lambda>j. j \<noteq> userindex) ?r = []"
    proof (rule ccontr)
      assume "takeWhile (\<lambda>j. j \<noteq> userindex) ?r \<noteq> []"
      then obtain j where "j \<in> set (takeWhile (\<lambda>j. j \<noteq> userindex) ?r)"
        by (meson last_in_set)
      from ranked_ahead [OF assms this] none show False by blast
    qed
    moreover have "?r \<noteq> []"
      using assms set_ranking [of coords userindex] by auto
    ultimately show ?thesis
      by (cases ?r) (auto split: if_splits)
  qed
  have "distinct ?r" by (simp add: ranking_eq)
  with first show ?thesis
    using assms
    by (simp add: set_ranking sorted_ranking ranking_stable euclidean_self ranked_ahead)
qed

text \<open>
  The claim as stated fails: with two users at the same coordinate, ties in row order put
  row 0 first, also when row 1 is the query user.
\<close>

theorem ranking_order_counterexample:
  "ranking [[0], [0]] 1 = [0, 1] \<and> hd (ranking [[0], [0]] 1) \<noteq> 1"
  by (simp add: ranking_def cdist_def euclidean_def argsort_def upt_rec)


section \<open>The estimator on the example data\<close>

lemmas ex_simps = ex_frame_def ex_coords_def estimate_ratings_def estimate_one_def neighbours_def
  ranking_def cdist_def euclidean_def argsort_def cell_def mean_def upt_rec

theorem estimate_ratings_mean_witness:
  "set (map userID [\<lparr>userID = 2, gameID = 7\<rparr>, \<lparr>userID = 4, gameID = 5\<rparr>, \<lparr>userID = 3, gameID = 9\<rparr>])
     \<subseteq> set (index ex_frame)
   \<and> set (map gameID [\<lparr>userID = 2, gameID = 7\<rparr>, \<lparr>userID = 4, gameID = 5\<rparr>, \<lparr>userID = 3, gameID = 9\<rparr>])
     \<subseteq> set (columns ex_frame)
   \<and> length ex_coords = length (index ex_frame) \<and> distinct (index ex_frame)
   \<and> estimate_ratings
        [\<lparr>userID = 2, gameID = 7\<rparr>, \<lparr>userID = 4, gameID = 5\<rparr>, \<lparr>userID = 3, gameID = 9\<rparr>]
        ex_coords ex_frame 2 = Inr [Some 5, Some 5, None]"
proof -
  have h1: "\<forall>rec \<in> set [\<lparr>userID = 2, gameID = 7\<rparr>, \<lparr>userID = 4, gameID = 5\<rparr>, \<lparr>userID = 3, gameID = 9\<rparr>].
       userID rec \<in> set (index ex_frame) \<and> gameID rec \<in> set (columns ex_frame)"
    by (simp add: ex_frame_def)
  have h2: "length ex_coords = length (index ex_frame)"
    by (simp add: ex_frame_def ex_coords_def)
  have h3: "distinct (index ex_frame)"
    by (simp add: ex_frame_def)
  have r: "ratings_by_distance ex_coords ex_frame \<lparr>userID = 2, gameID = 7\<rparr> = [8, 2]"
          "ratings_by_distance ex_coords ex_frame \<lparr>userID = 4, gameID = 5\<rparr> = [4, 6]"
          "ratings_by_distance ex_coords ex_frame \<lparr>userID = 3, gameID = 9\<rparr> = []"
    by (simp_all add: ratings_by_distance_def position_def List.map_filter_simps ex_simps)
  have e: "estimate_ratings
        [\<lparr>userID = 2, gameID = 7\<rparr>, \<lparr>userID = 4, gameID = 5\<rparr>, \<lparr>userID = 3, gameID = 9\<rparr>]
        ex_coords ex_frame 2 = Inr [Some 5, Some 5, None]"
    using estimate_ratings_mean [OF h1 h2 h3, of 2] by (simp add: r mean_def)
  have s: "set (map userID [\<lparr>userID = 2, gameID = 7\<rparr>, \<lparr>userID = 4, gameID = 5\<rparr>, \<lparr>userID = 3, gameID = 9\<rparr>])
             \<subseteq> set (index ex_frame)"
    "set (map gameID [\<lparr>userID = 2, gameID = 7\<rparr>, \<lparr>userID = 4, gameID = 5\<rparr>, \<lparr>userID = 3, gameID = 9\<rparr>])
             \<subseteq> set (columns ex_frame)"
    by (simp_all add: ex_frame_def)
  from e s h2 h3 show ?thesis by (intro conjI)
qed

text \<open>
  The claim as stated fails twice. For a game that is not a column, no user has a rating,
  yet the function raises KeyError and returns no NaN. With \<open>numneighbors2use = 0\<close> one
  rating is collected, since the length is tested after the append.
\<close>

theorem estimate_ratings_mean_counterexample:
  "estimate_ratings [\<lparr>userID = 2, gameID = 11\<rparr>] ex_coords ex_frame 50 = Inl (KeyError 11)
   \<and> estimate_ratings [\<lparr>userID = 2, gameID = 7\<rparr>] ex_coords ex_frame 0 = Inr [Some 8]"
  by (simp add: ex_simps)

theorem unknown_user_aborts_batch_witness:
  "(\<exists>rec \<in> set [\<lparr>userID = 8, gameID = 5\<rparr>, \<lparr>userID = 2, gameID = 5\<rparr>].
       userID rec \<notin> set (index ex_frame))
   \<and> length ex_coords = length (index ex_frame)
   \<and> (\<exists>k. estimate_ratings [\<lparr>userID = 8, gameID = 5\<rparr>, \<lparr>userID = 2, gameID = 5\<rparr>]
              ex_coords ex_frame 50 = Inl (KeyError k))"
proof -
  have h1: "\<exists>rec \<in> set [\<lparr>userID = 8, gameID = 5\<rparr>, \<lparr>userID = 2, gameID = 5\<rparr>].
       userID rec \<notin> set (index ex_frame)"
    by (simp add: ex_frame_def)
  have h2: "length ex_coords = length (index ex_frame)"
    by (simp add: ex_frame_def ex_coords_def)
  from unknown_user_aborts_batch [OF h1 h2, of 50] show ?thesis
    using h1 h2 by blast
qed

text \<open>
  The claim as stated fails: the second query has an estimate when asked alone, and gets
  none when it follows a query with an unknown user.
\<close>

theorem unknown_user_counterexample:
  "estimate_ratings [\<lparr>userID = 8, gameID = 5\<rparr>, \<lparr>userID = 2, gameID = 5\<rparr>]
     ex_coords ex_frame 50 = Inl (KeyError 8)
   \<and> estimate_ratings [\<lparr>userID = 2, gameID = 5\<rparr>] ex_coords ex_frame 50 = Inr [Some 5]"
  by (simp add: ex_simps)

theorem ranking_order_witness:
  "2 < length ex_coords
   \<and> set (ranking ex_coords 2) = {0..<length ex_coords}
   \<and> euclidean (ex_coords ! 2) (ex_coords ! 0) \<noteq> 0
   \<and> euclidean (ex_coords ! 2) (ex_coords ! 1) \<noteq> 0
   \<and> hd (ranking ex_coords 2) = 2"
proof -
  have h: "2 < length ex_coords" by (simp add: ex_coords_def)
  have n: "\<forall>j<2. euclidean (ex_coords ! 2) (ex_coords ! j) \<noteq> 0"
    by (simp add: ex_coords_def euclidean_def numeral_2_eq_2 less_Suc_eq)
  have e: "euclidean (ex_coords ! 2) (ex_coords ! 0) \<noteq> 0"
    "euclidean (ex_coords ! 2) (ex_coords ! 1) \<noteq> 0"
    by (simp_all add: ex_coords_def euclidean_def)
  from ranking_order [OF h] show ?thesis
    using h n e by blast
qed



section \<open>The iterations of ALS\<close>

lemma cramer2:
  fixes a b c d e f :: real
  assumes "a * d \<noteq> b * c"
  shows "a * (e * d - b * f) / (a * d - b * c) + b * (a * f - e * c) / (a * d - b * c) = e"
    and "c * (e * d - b * f) / (a * d - b * c) + d * (a * f - e * c) / (a * d - b * c) = f"
proof -
  let ?det = "a * d - b * c"
  have det: "?det \<noteq> 0" using assms by simp
  have "a * (e * d - b * f) / ?det + b * (a * f - e * c) / ?det
        = (a * (e * d - b * f) + b * (a * f - e * c)) / ?det"
    by (simp add: add_divide_distrib)
  also have "a * (e * d - b * f) + b * (a * f - e * c) = e * ?det"
    by (simp add: algebra_simps)
  finally show "a * (e * d - b * f) / ?det + b * (a * f - e * c) / ?det = e"
    using det by simp
  have "c * (e * d - b * f) / ?det + d * (a * f - e * c) / ?det
        = (c * (e * d - b * f) + d * (a * f - e * c)) / ?det"
    by (simp add: add_divide_distrib)
  also have "c * (e * d - b * f) + d * (a * f - e * c) = f * ?det"
    by (simp add: algebra_simps)
  finally show "c * (e * d - b * f) / ?det + d * (a * f - e * c) / ?det = f"
    using det by simp
qed

lemma solve_cramer_sound:
  assumes "solve_cramer A b = Some x"
  shows "length x = length b \<and> mat_vec A x = b"
  using assms
  by (auto simp: solve_cramer_def mat_vec_def dot_def Let_def cramer2
      split: list.splits if_splits)










section \<open>The weighted updates\<close>

lemma update_X_rows:
  assumes "update_X solve lam k n Q W Y us X = Inr X'"
      and "distinct us" and "\<forall>u \<in> set us. u < length X"
  shows "length X' = length X
       \<and> (\<forall>u \<in> set us. solve (user_A lam k n Y (W ! u)) (user_b Y (W ! u) (Q ! u)) = Some (X' ! u))
       \<and> (\<forall>v. v \<notin> set us \<longrightarrow> X' ! v = X ! v)"
  using assms
proof (induction us arbitrary: X)
  case Nil
  then show ?case by simp
next
  case (Cons u us)
  from Cons.prems(1) obtain x
    where sol: "solve (user_A lam k n Y (W ! u)) (user_b Y (W ! u) (Q ! u)) = Some x"
      and rest: "update_X solve lam k n Q W Y us (X[u := x]) = Inr X'"
    by (auto split: option.splits)
  have "distinct us" "\<forall>v \<in> set us. v < length (X[u := x])"
    using Cons.prems by simp_all
  from Cons.IH [OF rest this]
  have ih: "length X' = length X"
    "\<forall>v \<in> set us. solve (user_A lam k n Y (W ! v)) (user_b Y (W ! v) (Q ! v)) = Some (X' ! v)"
    "\<forall>v. v \<notin> set us \<longrightarrow> X' ! v = X[u := x] ! v"
    by simp_all
  have "u \<notin> set us" "u < length X" using Cons.prems by simp_all
  with ih(3) have "X' ! u = x" by simp
  with sol ih show ?case by auto
qed

lemma col_set_col_same:
  assumes "length y = length M" and "\<forall>row \<in> set M. i < length row"
  shows "col (set_col M i y) i = y"
  using assms
proof (induction M arbitrary: y)
  case Nil
  then show ?case by (simp add: col_def set_col_def)
next
  case (Cons row M)
  then obtain v ys where y: "y = v # ys" by (cases y) auto
  with Cons.prems have "length ys = length M" "\<forall>row \<in> set M. i < length row" by simp_all
  from Cons.IH [OF this] Cons.prems y show ?case
    by (simp add: col_def set_col_def)
qed

lemma col_set_col_other:
  assumes "length y = length M" and "j \<noteq> i"
  shows "col (set_col M i y) j = col M j"
  using assms
proof (induction M arbitrary: y)
  case Nil
  then show ?case by (simp add: col_def set_col_def)
next
  case (Cons row M)
  then obtain v ys where y: "y = v # ys" by (cases y) auto
  with Cons.prems have "length ys = length M" by simp
  from Cons.IH [OF this] Cons.prems y show ?case
    by (simp add: col_def set_col_def)
qed

lemma shape_set_col:
  assumes "length y = length M"
  shows "length (set_col M i y) = length M"
    and "(\<forall>row \<in> set M. length row = n) \<Longrightarrow> \<forall>row \<in> set (set_col M i y). length row = n"
  using assms by (auto simp: set_col_def set_zip)

lemma length_item_b: "length (item_b k X Wi Qi) = k"
  by (simp add: item_b_def mat_vec_def transpose_m_def)

lemma update_Y_cols:
  assumes len: "\<And>A b x. solve A b = Some x \<Longrightarrow> length x = length b"
      and "update_Y solve lam k Q W X is Y = Inr Y'"
      and "distinct is" and "\<forall>i \<in> set is. i < n"
      and "length Y = k" and "\<forall>row \<in> set Y. length row = n"
  shows "length Y' = k \<and> (\<forall>row \<in> set Y'. length row = n)
       \<and> (\<forall>i \<in> set is. solve (item_A lam k X (col W i)) (item_b k X (col W i) (col Q i))
                           = Some (col Y' i))
       \<and> (\<forall>j. j \<notin> set is \<longrightarrow> col Y' j = col Y j)"
  using assms(2-)
proof (induction "is" arbitrary: Y)
  case Nil
  then show ?case by simp
next
  case (Cons i "is")
  from Cons.prems(1) obtain y
    where sol: "solve (item_A lam k X (col W i)) (item_b k X (col W i) (col Q i)) = Some y"
      and rest: "update_Y solve lam k Q W X is (set_col Y i y) = Inr Y'"
    by (auto split: option.splits)
  from len [OF sol] have ly: "length y = length Y"
    using Cons.prems(4) by (simp add: length_item_b)
  have shape: "length (set_col Y i y) = k" "\<forall>row \<in> set (set_col Y i y). length row = n"
    using shape_set_col [OF ly] Cons.prems(4,5) by simp_all
  have "distinct is" "\<forall>i \<in> set is. i < n" using Cons.prems by simp_all
  from Cons.IH [OF rest this shape]
  have ih: "length Y' = k" "\<forall>row \<in> set Y'. length row = n"
    "\<forall>j \<in> set is. solve (item_A lam k X (col W j)) (item_b k X (col W j) (col Q j))
                    = Some (col Y' j)"
    "\<forall>j. j \<notin> set is \<longrightarrow> col Y' j = col (set_col Y i y) j"
    by simp_all
  have "i \<notin> set is" "\<forall>row \<in> set Y. i < length row" using Cons.prems by simp_all
  with ih(4) ly have "col Y' i = y" by (simp add: col_set_col_same)
  moreover have "col Y' j = col Y j" if "j \<notin> set (i # is)" for j
    using that ih(4) ly by (simp add: col_set_col_other)
  ultimately show ?case using sol ih by auto
qed


lemma als_loop_invariant:
  assumes "\<And>XY XY'. I XY \<Longrightarrow> step XY = Inr XY' \<Longrightarrow> I XY'"
      and "als_loop step Q W iis s = Inr s'" and "I (fst s, fst (snd s))"
  shows "I (fst s', fst (snd s'))"
  using assms(2,3)
proof (induction iis arbitrary: s)
  case Nil
  then show ?case by simp
next
  case (Cons ii iis)
  from Cons.prems(1) obtain XY where st: "step (fst s, fst (snd s)) = Inr XY"
    and rest: "als_loop step Q W iis
                 (fst XY, snd XY, snd (snd s) @ [get_error Q (fst XY) (snd XY) W]) = Inr s'"
    by (auto split: sum.splits)
  from assms(1) [OF Cons.prems(2) st] have "I XY" .
  then show ?case using Cons.IH [OF rest] by simp
qed

lemma length_weights: "length (weights Q) = length Q"
  by (simp add: weights_def)

lemma weighted_step_rows:
  assumes step: "weighted_step solve lam k Q W (X, Y) = Inr (X', Y')"
      and lw: "length W = length X"
  shows "length X' = length X
       \<and> (\<forall>u < length X. solve (user_A lam k (ncols Q) Y (W ! u)) (user_b Y (W ! u) (Q ! u))
                            = Some (X' ! u))"
proof -
  from step have "update_X solve lam k (ncols Q) Q W Y [0..<length W] X = Inr X'"
    by (auto simp: weighted_step_def split: sum.splits)
  from update_X_rows [OF this] lw show ?thesis by simp
qed

lemma weighted_step_cols:
  assumes len: "\<And>A b x. solve A b = Some x \<Longrightarrow> length x = length b"
      and step: "weighted_step solve lam k Q W (X, Y) = Inr (X', Y')"
      and shape: "length Y = k" "\<forall>row \<in> set Y. length row = ncols Q"
  shows "length Y' = k \<and> (\<forall>row \<in> set Y'. length row = ncols Q)
       \<and> (\<forall>i < ncols Q. solve (item_A lam k X' (col W i)) (item_b k X' (col W i) (col Q i))
                           = Some (col Y' i))"
proof -
  from step have "update_Y solve lam k Q W X' [0..<ncols Q] Y = Inr Y'"
    by (auto simp: weighted_step_def split: sum.splits)
  from update_Y_cols [of solve, OF len this _ _ shape] show ?thesis by simp
qed

lemma mat_mul_nth:
  "u < length X \<Longrightarrow> i < n \<Longrightarrow> mat_mul n X Y ! u ! i = dot (X ! u) (col Y i)"
  by (simp add: mat_mul_def)

lemma do_ALS_weighted_run:
  assumes "do_ALS solve solve_m rand_X rand_Y Q n_iterations lam n_factors True verbose
           = Inr (Q_hat, Xf, Yf, errors)"
  shows "\<exists>s. als_loop (weighted_step solve lam n_factors Q (weights Q)) Q (weights Q)
               [0..<nat n_iterations]
               (map (\<lambda>i. map (\<lambda>j. 5 * rand_X i j) [0..<n_factors]) [0..<length Q],
                map (\<lambda>i. map (\<lambda>j. 5 * rand_Y i j) [0..<ncols Q]) [0..<n_factors], []) = Inr s
           \<and> Q_hat = mat_mul (ncols Q) (fst s) (fst (snd s))
           \<and> Xf = fst s \<and> Yf = fst (snd s) \<and> errors = snd (snd s)"
proof (cases "als_loop (weighted_step solve lam n_factors Q (weights Q)) Q (weights Q)
               [0..<nat n_iterations]
               (map (\<lambda>i. map (\<lambda>j. 5 * rand_X i j) [0..<n_factors]) [0..<length Q],
                map (\<lambda>i. map (\<lambda>j. 5 * rand_Y i j) [0..<ncols Q]) [0..<n_factors], [])")
  case (Inl e)
  with assms show ?thesis by (simp add: do_ALS_def Let_def)
next
  case (Inr s)
  with assms show ?thesis by (auto simp: do_ALS_def Let_def split: if_splits)
qed

text \<open>
  C3. \<open>np.linalg.solve\<close> is taken to return a solution of the system it is given, as long
  as the right-hand side. One pass of the weighted loop, from \<open>(X, Y)\<close> to \<open>(X', Y')\<close>, then
  makes every row \<open>u\<close> of \<open>X'\<close> a solution of the system of user \<open>u\<close>, built from the old \<open>Y\<close>,
  and every column \<open>i\<close> of \<open>Y'\<close> a solution of the system of item \<open>i\<close>, built from the new
  \<open>X'\<close>; the shapes, which \<open>do_ALS\<close> sets up at the start, are kept. The matrix that
  \<open>do_ALS\<close> returns is the product of the returned factors in every cell.
\<close>

theorem weighted_iteration:
  assumes contract: "\<And>A b x. solve A b = Some x \<Longrightarrow> length x = length b \<and> mat_vec A x = b"
  shows "(length X = length Q \<and> length Y = n_factors \<and> (\<forall>row \<in> set Y. length row = ncols Q)
          \<and> weighted_step solve lam n_factors Q (weights Q) (X, Y) = Inr (X', Y')
          \<longrightarrow> length X' = length Q \<and> length Y' = n_factors
              \<and> (\<forall>row \<in> set Y'. length row = ncols Q)
              \<and> (\<forall>u < length Q.
                    mat_vec (user_A lam n_factors (ncols Q) Y (weights Q ! u)) (X' ! u)
                    = user_b Y (weights Q ! u) (Q ! u))
              \<and> (\<forall>i < ncols Q.
                    mat_vec (item_A lam n_factors X' (col (weights Q) i)) (col Y' i)
                    = item_b n_factors X' (col (weights Q) i) (col Q i)))
       \<and> (do_ALS solve solve_m rand_X rand_Y Q n_iterations lam n_factors True verbose
            = Inr (Q_hat, Xf, Yf, errors)
          \<longrightarrow> length Xf = length Q
              \<and> (\<forall>u < length Q. \<forall>i < ncols Q. Q_hat ! u ! i = dot (Xf ! u) (col Yf i)))"
proof -
  have len: "\<And>A b x. solve A b = Some x \<Longrightarrow> length x = length b"
    using contract by blast
  have one: "length X' = length Q \<and> length Y' = n_factors
              \<and> (\<forall>row \<in> set Y'. length row = ncols Q)
              \<and> (\<forall>u < length Q.
                    mat_vec (user_A lam n_factors (ncols Q) Y (weights Q ! u)) (X' ! u)
                    = user_b Y (weights Q ! u) (Q ! u))
              \<and> (\<forall>i < ncols Q.
                    mat_vec (item_A lam n_factors X' (col (weights Q) i)) (col Y' i)
                    = item_b n_factors X' (col (weights Q) i) (col Q i))"
    if lx: "length X = length Q" and ly: "length Y = n_factors"
      and rows: "\<forall>row \<in> set Y. length row = ncols Q"
      and step: "weighted_step solve lam n_factors Q (weights Q) (X, Y) = Inr (X', Y')"
    for X Y X' Y'
  proof -
    have "length (weights Q) = length X" using lx by (simp add: length_weights)
    from weighted_step_rows [OF step this] lx
    have r: "length X' = length Q"
      "\<forall>u < length Q. solve (user_A lam n_factors (ncols Q) Y (weights Q ! u))
                         (user_b Y (weights Q ! u) (Q ! u)) = Some (X' ! u)"
      by simp_all
    from weighted_step_cols [of solve, OF len step ly rows]
    have c: "length Y' = n_factors" "\<forall>row \<in> set Y'. length row = ncols Q"
      "\<forall>i < ncols Q. solve (item_A lam n_factors X' (col (weights Q) i))
                        (item_b n_factors X' (col (weights Q) i) (col Q i)) = Some (col Y' i)"
      by simp_all
    from r(2) c(3) contract show ?thesis
      using r(1) c(1,2) by blast
  qed
  have two: "length Xf = length Q
              \<and> (\<forall>u < length Q. \<forall>i < ncols Q. Q_hat ! u ! i = dot (Xf ! u) (col Yf i))"
    if run: "do_ALS solve solve_m rand_X rand_Y Q n_iterations lam n_factors True verbose
            = Inr (Q_hat, Xf, Yf, errors)"
  proof -
    let ?I = "\<lambda>XY. length (fst XY) = length Q \<and> length (snd XY) = n_factors
                \<and> (\<forall>row \<in> set (snd XY). length row = ncols Q)"
    let ?X0 = "map (\<lambda>i. map (\<lambda>j. 5 * rand_X i j) [0..<n_factors]) [0..<length Q]"
    let ?Y0 = "map (\<lambda>i. map (\<lambda>j. 5 * rand_Y i j) [0..<ncols Q]) [0..<n_factors]"
    from do_ALS_weighted_run [OF run] obtain s
      where loop: "als_loop (weighted_step solve lam n_factors Q (weights Q)) Q
         (weights Q) [0..<nat n_iterations] (?X0, ?Y0, []) = Inr s"
      and res: "Q_hat = mat_mul (ncols Q) (fst s) (fst (snd s))" "Xf = fst s" "Yf = fst (snd s)"
      by blast
    have pres: "?I XY'" if "?I XY" "weighted_step solve lam n_factors Q (weights Q) XY = Inr XY'"
      for XY XY'
      using one [of "fst XY" "snd XY" "fst XY'" "snd XY'"] that by simp
    have "?I (fst (?X0, ?Y0, []), fst (snd (?X0, ?Y0, [])))" by simp
    from als_loop_invariant [of ?I, OF pres loop this]
    have "length Xf = length Q" using res by simp
    then show ?thesis using res by (simp add: mat_mul_nth)
  qed
  from one two show ?thesis by blast
qed

section \<open>Weights and clipping\<close>



section \<open>ALS on small inputs\<close>

lemmas als_simps = weights_def ncols_def weighted_step_def unweighted_step_def
  user_A_def user_b_def item_A_def item_b_def mat_add_def mat_sub_def mat_times_def mat_mul_def
  mat_vec_def transpose_m_def col_def dot_def diag_def eye_def scale_def set_col_def
  get_error_def solve_cramer_def solve_m_cramer_def upt_rec

lemma ex_step1:
  "weighted_step solve_cramer 1 (Suc 0) [[4, 0], [0, 2]] (weights [[4, 0], [0, 2]])
     ([[1], [1]], [[1, 1]])
   = Inr ([[2], [1]], [[8 / 5, 1]])"
  by (simp add: als_simps)

lemma ex_error1:
  "get_error [[4, 0], [0, 2]] [[2], [1]] [[8 / 5, 1]] (weights [[4, 0], [0, 2]]) = 41 / 25"
  by (simp add: als_simps power2_eq_square)

lemma ex_step2:
  "weighted_step solve_cramer 1 (Suc 0) [[4, 0], [0, 2]] (weights [[4, 0], [0, 2]])
     ([[2], [1]], [[8 / 5, 1]])
   = Inr ([[160 / 89], [1]], [[56960 / 33521, 1]])"
  by (simp add: als_simps)

lemma ex_error2:
  "get_error [[4, 0], [0, 2]] [[160 / 89], [1]] [[56960 / 33521, 1]] (weights [[4, 0], [0, 2]])
   = 2127533297 / 1123657441"
  by (simp add: als_simps power2_eq_square)

lemma ex_init:
  "map (\<lambda>i. map (\<lambda>j. 5 * (1 / 5 :: real)) [0..<1]) [0..<length [[4, 0], [0, 2 :: real]]]
   = [[1], [1]]"
  "map (\<lambda>i. map (\<lambda>j. 5 * (1 / 5 :: real)) [0..<ncols [[4, 0], [0, 2]]]) [0..<1] = [[1, 1]]"
  "map (\<lambda>i. map (\<lambda>j. 5 * (1 / 5 :: real)) [0..<ncols [[0]]]) [0..<1] = [[1]]"
  "map (\<lambda>i. map (\<lambda>j. 5 * (1 / 5 :: real)) [0..<1]) [0..<length [[0 :: real]]] = [[1]]"
  by (simp_all add: ncols_def upt_rec)

lemma ex_run2:
  "do_ALS solve_cramer solve_m_cramer (\<lambda>i j. 1 / 5) (\<lambda>i j. 1 / 5) [[4, 0], [0, 2]] 2 1 1 True True
   = Inr ([[102400 / 33521, 160 / 89], [56960 / 33521, 1]], [[160 / 89], [1]],
      [[56960 / 33521, 1]], [41 / 25, 2127533297 / 1123657441])"
proof -
  have n: "[0..<nat 2] = [0, 1]" by (simp add: upt_rec)
  have p: "mat_mul (ncols [[4, 0], [0, 2]]) [[160 / 89], [1]] [[56960 / 33521, 1]]
           = [[102400 / 33521, 160 / 89], [56960 / 33521, 1]]"
    by (simp add: als_simps)
  show ?thesis
    unfolding do_ALS_def Let_def ex_init n
    by (simp add: ex_step1 ex_error1 ex_step2 ex_error2 p)
qed


lemma ex_step_two_factors:
  "weighted_step solve_cramer 1 2 [[4, 0], [0, 2]] (weights [[4, 0], [0, 2]])
     ([[1, 0], [0, 1]], [[1, 1], [0, 1]])
   = Inr ([[2, 0], [2 / 3, 2 / 3]], [[8 / 5, 12 / 17], [0, 12 / 17]])"
  by (simp add: als_simps)



theorem weighted_iteration_witness:
  "weighted_step solve_cramer 1 2 [[4, 0], [0, 2]] (weights [[4, 0], [0, 2]])
        ([[1, 0], [0, 1]], [[1, 1], [0, 1]])
      = Inr ([[2, 0], [2 / 3, 2 / 3]], [[8 / 5, 12 / 17], [0, 12 / 17]])
   \<and> mat_vec (user_A 1 2 (ncols [[4, 0], [0, 2]]) [[1, 1], [0, 1]] (weights [[4, 0], [0, 2]] ! 0))
              [2, 0]
       = user_b [[1, 1], [0, 1]] (weights [[4, 0], [0, 2]] ! 0) [4, 0]
   \<and> mat_vec (user_A 1 2 (ncols [[4, 0], [0, 2]]) [[1, 1], [0, 1]] (weights [[4, 0], [0, 2]] ! 1))
              [2 / 3, 2 / 3]
       = user_b [[1, 1], [0, 1]] (weights [[4, 0], [0, 2]] ! 1) [0, 2]
   \<and> mat_vec (item_A 1 2 [[2, 0], [2 / 3, 2 / 3]] (col (weights [[4, 0], [0, 2]]) 0)) [8 / 5, 0]
       = item_b 2 [[2, 0], [2 / 3, 2 / 3]] (col (weights [[4, 0], [0, 2]]) 0) [4, 0]
   \<and> mat_vec (item_A 1 2 [[2, 0], [2 / 3, 2 / 3]] (col (weights [[4, 0], [0, 2]]) 1))
              [12 / 17, 12 / 17]
       = item_b 2 [[2, 0], [2 / 3, 2 / 3]] (col (weights [[4, 0], [0, 2]]) 1) [0, 2]
   \<and> do_ALS solve_cramer solve_m_cramer (\<lambda>i j. 1 / 5) (\<lambda>i j. 1 / 5) [[4, 0], [0, 2]] 2 1 1
        True True
      = Inr ([[102400 / 33521, 160 / 89], [56960 / 33521, 1]], [[160 / 89], [1]],
             [[56960 / 33521, 1]], [41 / 25, 2127533297 / 1123657441])
   \<and> 102400 / 33521 = dot [160 / 89] (col [[56960 / 33521, 1]] 0)
   \<and> 160 / 89 = dot [160 / 89] (col [[56960 / 33521, 1]] 1)
   \<and> 56960 / 33521 = dot [1] (col [[56960 / 33521, 1]] 0)
   \<and> 1 = dot [1] (col [[56960 / 33521, 1]] 1)"
proof -
  have shape: "length [[1, 0], [0, 1 :: real]] = length [[4, 0], [0, 2 :: real]]"
    "length [[1, 1], [0, 1 :: real]] = 2"
    "\<forall>row \<in> set [[1, 1], [0, 1 :: real]]. length row = ncols [[4, 0], [0, 2]]"
    by (simp_all add: ncols_def)
  have two: "(0 :: nat) < length [[4, 0], [0, 2 :: real]]" "(1 :: nat) < length [[4, 0], [0, 2 :: real]]"
    "(0 :: nat) < ncols [[4, 0], [0, 2]]" "(1 :: nat) < ncols [[4, 0], [0, 2]]"
    by (simp_all add: ncols_def)
  note w = weighted_iteration [of solve_cramer, OF solve_cramer_sound,
      where X = "[[1, 0], [0, 1]]" and Y = "[[1, 1], [0, 1]]" and Q = "[[4, 0], [0, 2]]"
        and n_factors = 2 and lam = 1
        and X' = "[[2, 0], [2 / 3, 2 / 3]]" and Y' = "[[8 / 5, 12 / 17], [0, 12 / 17]]"]
  note r = weighted_iteration [of solve_cramer, OF solve_cramer_sound,
      where Q = "[[4, 0], [0, 2]]" and n_factors = 1 and lam = 1 and n_iterations = 2
        and solve_m = solve_m_cramer and rand_X = "\<lambda>i j. 1 / 5" and rand_Y = "\<lambda>i j. 1 / 5"
        and verbose = True
        and Q_hat = "[[102400 / 33521, 160 / 89], [56960 / 33521, 1]]"
        and Xf = "[[160 / 89], [1]]" and Yf = "[[56960 / 33521, 1]]"
        and errors = "[41 / 25, 2127533297 / 1123657441]"]
  from w shape ex_step_two_factors
  have a: "\<forall>u < length [[4, 0], [0, 2 :: real]].
         mat_vec (user_A 1 2 (ncols [[4, 0], [0, 2]]) [[1, 1], [0, 1]] (weights [[4, 0], [0, 2]] ! u))
                 ([[2, 0], [2 / 3, 2 / 3]] ! u)
         = user_b [[1, 1], [0, 1]] (weights [[4, 0], [0, 2]] ! u) ([[4, 0], [0, 2]] ! u)"
    and b: "\<forall>i < ncols [[4, 0], [0, 2]].
         mat_vec (item_A 1 2 [[2, 0], [2 / 3, 2 / 3]] (col (weights [[4, 0], [0, 2]]) i))
                 (col [[8 / 5, 12 / 17], [0, 12 / 17]] i)
         = item_b 2 [[2, 0], [2 / 3, 2 / 3]] (col (weights [[4, 0], [0, 2]]) i)
                  (col [[4, 0], [0, 2]] i)"
    by blast+
  from r ex_run2
  have c: "\<forall>u < length [[4, 0], [0, 2 :: real]]. \<forall>i < ncols [[4, 0], [0, 2]].
         [[102400 / 33521, 160 / 89], [56960 / 33521, 1]] ! u ! i
         = dot ([[160 / 89], [1]] ! u) (col [[56960 / 33521, 1]] i)"
    by blast
  have a0: "mat_vec (user_A 1 2 (ncols [[4, 0], [0, 2]]) [[1, 1], [0, 1]]
                (weights [[4, 0], [0, 2]] ! 0)) [2, 0]
            = user_b [[1, 1], [0, 1]] (weights [[4, 0], [0, 2]] ! 0) [4, 0]"
    using a [rule_format, OF two(1)] by simp
  have a1: "mat_vec (user_A 1 2 (ncols [[4, 0], [0, 2]]) [[1, 1], [0, 1]]
                (weights [[4, 0], [0, 2]] ! 1)) [2 / 3, 2 / 3]
            = user_b [[1, 1], [0, 1]] (weights [[4, 0], [0, 2]] ! 1) [0, 2]"
    using a [rule_format, OF two(2)] by simp
  have b0: "mat_vec (item_A 1 2 [[2, 0], [2 / 3, 2 / 3]] (col (weights [[4, 0], [0, 2]]) 0))
                [8 / 5, 0]
            = item_b 2 [[2, 0], [2 / 3, 2 / 3]] (col (weights [[4, 0], [0, 2]]) 0) [4, 0]"
    using b [rule_format, OF two(3)] by (simp add: col_def)
  have b1: "mat_vec (item_A 1 2 [[2, 0], [2 / 3, 2 / 3]] (col (weights [[4, 0], [0, 2]]) 1))
                [12 / 17, 12 / 17]
            = item_b 2 [[2, 0], [2 / 3, 2 / 3]] (col (weights [[4, 0], [0, 2]]) 1) [0, 2]"
    using b [rule_format, OF two(4)] by (simp add: col_def)
  have c00: "102400 / 33521 = dot [160 / 89] (col [[56960 / 33521, 1]] 0)"
    using c [rule_format, OF two(1) two(3)] by simp
  have c01: "160 / 89 = dot [160 / 89] (col [[56960 / 33521, 1]] 1)"
    using c [rule_format, OF two(1) two(4)] by simp
  have c10: "56960 / 33521 = dot [1] (col [[56960 / 33521, 1]] 0)"
    using c [rule_format, OF two(2) two(3)] by simp
  have c11: "1 = dot [1] (col [[56960 / 33521, 1]] 1)"
    using c [rule_format, OF two(2) two(4)] by simp
  from a0 a1 b0 b1 c00 c01 c10 c11 ex_step_two_factors ex_run2 show ?thesis
    by (intro conjI)
qed



end
